theory Spec2Isabelle
  imports Main
begin

section \<open>The entry point of the canvas server (cmd/server/main.go)\<close>

text \<open>
  The development embeds \<^verbatim>\<open>cmd/server/main.go\<close>: the environment helpers
  \<^verbatim>\<open>getStringOrDefault\<close> and \<^verbatim>\<open>getIntOrDefault\<close>, the AWS endpoint resolver, and the
  function \<^verbatim>\<open>start\<close>, which builds the server, launches its \<^verbatim>\<open>Start\<close> in an errgroup
  task, waits for the group's context, launches \<^verbatim>\<open>Stop\<close>, joins both tasks and turns
  the group's error into the exit status.
\<close>

subsection \<open>Process environment and integer parsing\<close>

text \<open>
  Go's \<^verbatim>\<open>error\<close> values are represented by their message. The process environment is a
  partial map: \<^verbatim>\<open>os.LookupEnv(name)\<close> returns \<^verbatim>\<open>(v, true)\<close> for \<open>Some v\<close> and
  \<^verbatim>\<open>("", false)\<close> for \<open>None\<close>.
\<close>

type_synonym error = string

type_synonym environ = "string \<rightharpoonup> string"

definition os_LookupEnv :: "environ \<Rightarrow> string \<Rightarrow> string \<times> bool" where
  "os_LookupEnv env name = (case env name of None \<Rightarrow> ('''', False) | Some v \<Rightarrow> (v, True))"

text \<open>
  \<^verbatim>\<open>strconv.Atoi\<close> belongs to Go's standard library. It is modelled after
  \<^verbatim>\<open>strconv.ParseInt(s, 10, 0)\<close> on a 64-bit platform: an optional sign, then one or more
  decimal digits; anything else is a syntax error, and a value outside
  \<open>-2^63 .. 2^63 - 1\<close> is a range error. The digit loop is the one of
  \<^verbatim>\<open>ParseUint\<close>, with its overflow checks on the unsigned 64-bit accumulator.
\<close>

datatype num_error = ErrSyntax | ErrRange

definition is_digit :: "char \<Rightarrow> bool" where
  "is_digit c = (48 \<le> (of_char c :: nat) \<and> (of_char c :: nat) \<le> 57)"

definition digit_val :: "char \<Rightarrow> nat" where
  "digit_val c = (of_char c :: nat) - 48"

fun parseUint_loop :: "string \<Rightarrow> nat \<Rightarrow> num_error + nat" where
  "parseUint_loop [] n = Inr n"
| "parseUint_loop (c # cs) n =
     (if \<not> is_digit c then Inl ErrSyntax
      else if n \<ge> 2 ^ 64 div 10 + 1 then Inl ErrRange
      else let n1 = n * 10 + digit_val c in
        if n1 \<ge> 2 ^ 64 then Inl ErrRange else parseUint_loop cs n1)"

definition strconv_ParseUint :: "string \<Rightarrow> num_error + nat" where
  "strconv_ParseUint s = (if s = [] then Inl ErrSyntax else parseUint_loop s 0)"

definition strconv_Atoi :: "string \<Rightarrow> num_error + int" where
  "strconv_Atoi s =
     (if s = [] then Inl ErrSyntax
      else
        let neg = (hd s = CHR ''-'');
            body = (if hd s = CHR ''+'' \<or> hd s = CHR ''-'' then tl s else s)
        in case strconv_ParseUint body of
             Inl e \<Rightarrow> Inl e
           | Inr un \<Rightarrow>
               if \<not> neg \<and> un \<ge> 2 ^ 63 then Inl ErrRange
               else if neg \<and> un > 2 ^ 63 then Inl ErrRange
               else Inr (if neg then - int un else int un))"

text \<open>The two helpers of main.go, lines 131-149, with the environment made explicit.\<close>

definition getStringOrDefault :: "environ \<Rightarrow> string \<Rightarrow> string \<Rightarrow> string" where
  "getStringOrDefault env name defaultV =
     (let (v, ok) = os_LookupEnv env name in
      if \<not> ok then defaultV else v)"

definition getIntOrDefault :: "environ \<Rightarrow> string \<Rightarrow> int \<Rightarrow> int" where
  "getIntOrDefault env name defaultV =
     (let (v, ok) = os_LookupEnv env name in
      if \<not> ok then defaultV
      else case strconv_Atoi v of
             Inl err \<Rightarrow> defaultV
           | Inr vAsInt \<Rightarrow> vAsInt)"

subsection \<open>The AWS endpoint resolver\<close>

text \<open>
  \<^verbatim>\<open>createAWSEndpointResolver\<close> (lines 117-129) reads \<^verbatim>\<open>SQS_ENDPOINT_URL\<close> once, through
  \<^verbatim>\<open>env.GetStringOrDefault\<close> of the package github.com/maragudk/env, and returns a
  closure over the value. The package function and the constant \<^verbatim>\<open>sqs.ServiceID\<close> of the
  AWS SDK are not part of the repository: both are parameters of the model. Of
  \<^verbatim>\<open>aws.Endpoint\<close> only the field the resolver sets is kept; the zero value has the empty
  URL. The resolver returns a pair, as the Go function does: the endpoint and the error
  (\<open>None\<close> for \<^verbatim>\<open>nil\<close>).
\<close>

record aws_Endpoint =
  URL :: string

datatype aws_error = EndpointNotFoundError

definition createAWSEndpointResolver ::
  "(string \<Rightarrow> string \<Rightarrow> string) \<Rightarrow> string \<Rightarrow> string \<Rightarrow> string \<Rightarrow> aws_Endpoint \<times> aws_error option" where
  "createAWSEndpointResolver env_GetStringOrDefault sqs_ServiceID =
     (let sqsEndpointURL = env_GetStringOrDefault ''SQS_ENDPOINT_URL'' '''' in
      (\<lambda>service region.
         if sqsEndpointURL \<noteq> '''' \<and> service = sqs_ServiceID
         then (\<lparr>URL = sqsEndpointURL\<rparr>, None)
         else (\<lparr>URL = ''''\<rparr>, Some EndpointNotFoundError)))"

subsection \<open>The collaborators of \<^verbatim>\<open>start\<close>\<close>

text \<open>
  \<^verbatim>\<open>start\<close> (lines 30-91) calls into zap, the AWS SDK and the packages server, storage
  and messaging. Their results are the inputs of the model: a \<open>world\<close> fixes what the
  logger constructors and \<^verbatim>\<open>config.LoadDefaultConfig\<close> return (for the latter only the
  error matters; the configuration is handed on to \<^verbatim>\<open>createQueue\<close>). What the server's
  \<^verbatim>\<open>Start\<close> and \<^verbatim>\<open>Stop\<close> return, and when, is decided by the events of a run, below.
\<close>

datatype logger = ProductionLogger | DevelopmentLogger | NopLogger

record world =
  zap_NewProduction :: "error + logger"
  zap_NewDevelopment :: "error + logger"
  config_LoadDefaultConfig :: "error option"

definition createLogger :: "world \<Rightarrow> string \<Rightarrow> error + logger" where
  "createLogger w env =
     (if env = ''production'' then zap_NewProduction w
      else if env = ''development'' then zap_NewDevelopment w
      else Inr NopLogger)"

text \<open>
  The calls a run makes on its collaborators are recorded, in order, in a trace.
  \<open>NotifyStop\<close> is the deferred \<^verbatim>\<open>stop()\<close> of \<^verbatim>\<open>signal.NotifyContext\<close>, \<open>LogSync\<close> the
  deferred \<^verbatim>\<open>log.Sync()\<close>.
\<close>

datatype action =
    EnvLoad
  | Println string error
  | LogInfo string error
  | LogSync
  | NewDatabase
  | NewQueue
  | ServerNew
  | ServerStart
  | ServerStop
  | NotifyStop

subsection \<open>The state of a run\<close>

text \<open>
  After line 74 the function is concurrent: the main goroutine and the goroutines of the
  two \<^verbatim>\<open>eg.Go\<close> calls. The state holds the program point of the main goroutine
  (blocked at \<^verbatim>\<open><-ctx.Done()\<close>, line 76; blocked in \<^verbatim>\<open>eg.Wait()\<close>, line 86; returned
  with an exit status), the progress of each task, whether SIGTERM or SIGINT has been
  delivered (which cancels the context of \<^verbatim>\<open>signal.NotifyContext\<close>), and the fields of
  the errgroup: \<^verbatim>\<open>g.err\<close>, whether \<^verbatim>\<open>g.errOnce\<close> has fired, and whether \<^verbatim>\<open>g.cancel\<close> has
  been called.
\<close>

datatype pc = AtCtxDone | AtWait | Returned int

datatype task = NotLaunched | Launched | Running | Finished "error option"

record sup =
  pc :: pc
  startTask :: task
  stopTask :: task
  signalled :: bool
  egErr :: "error option"
  egOnce :: bool
  egCancelled :: bool
  trace :: "action list"

text \<open>
  The context that line 76 waits on is the one \<^verbatim>\<open>errgroup.WithContext\<close> derives from
  the signal context (the second \<^verbatim>\<open>ctx\<close> shadows the first): it is done when its parent
  is done or when the group has cancelled it.
\<close>

definition ctx_Done :: "sup \<Rightarrow> bool" where
  "ctx_Done s = (signalled s \<or> egCancelled s)"

text \<open>
  The errgroup (golang.org/x/sync v0.1.0). The goroutine of \<^verbatim>\<open>g.Go(f)\<close> runs \<^verbatim>\<open>f\<close> and, on
  a non-nil error, \<^verbatim>\<open>g.errOnce.Do\<close> stores the error and cancels the context: only the
  first error is kept. \<^verbatim>\<open>g.Wait()\<close> blocks until every task is done, cancels the context
  and returns \<^verbatim>\<open>g.err\<close>.
\<close>

definition eg_taskDone :: "error option \<Rightarrow> sup \<Rightarrow> sup" where
  "eg_taskDone r s =
     (case r of
        None \<Rightarrow> s
      | Some err \<Rightarrow>
          if egOnce s then s
          else s\<lparr>egOnce := True, egErr := Some err, egCancelled := True\<rparr>)"

definition taskDone :: "task \<Rightarrow> bool" where
  "taskDone t = (case t of Finished r \<Rightarrow> True | NotLaunched \<Rightarrow> True | _ \<Rightarrow> False)"

definition wg_idle :: "sup \<Rightarrow> bool" where
  "wg_idle s = (taskDone (startTask s) \<and> taskDone (stopTask s))"

definition eg_Wait :: "sup \<Rightarrow> error option \<times> sup" where
  "eg_Wait s = (egErr s, s\<lparr>egCancelled := True\<rparr>)"

text \<open>
  The two closures handed to \<^verbatim>\<open>eg.Go\<close> (lines 68-74 and 78-84) log a non-nil error of
  \<^verbatim>\<open>s.Start()\<close> or \<^verbatim>\<open>s.Stop()\<close> and return it unchanged.
\<close>

definition logged :: "string \<Rightarrow> error option \<Rightarrow> sup \<Rightarrow> sup" where
  "logged msg r s =
     (case r of
        None \<Rightarrow> s
      | Some err \<Rightarrow> s\<lparr>trace := trace s @ [LogInfo msg err]\<rparr>)"

subsection \<open>Steps of a run\<close>

text \<open>
  A run is driven by events: the delivery of a termination signal, the goroutine of a
  task calling \<^verbatim>\<open>s.Start()\<close> or \<^verbatim>\<open>s.Stop()\<close>, such a call returning (with \<open>None\<close> for
  \<^verbatim>\<open>nil\<close>), and a step of the main goroutine. \<open>step\<close> gives the next state, or \<open>None\<close>
  when the event cannot happen in the state: the main goroutine passes line 76 only when
  the context is done, and \<^verbatim>\<open>eg.Wait()\<close> returns only when both tasks are done. After the
  return the process exits and nothing happens any more. The return of a call, the
  logging of its error by the closure and the bookkeeping of the errgroup goroutine are
  one step: they follow each other in one goroutine without waiting for anything. Any
  interleaving of the goroutines and any timing of the signal is a list of events.
\<close>

datatype event =
    Signal
  | StartCall
  | StartRet "error option"
  | StopCall
  | StopRet "error option"
  | MainStep

definition exitStatus :: "error option \<Rightarrow> int" where
  "exitStatus err = (if err \<noteq> None then 1 else 0)"

definition mainStep :: "sup \<Rightarrow> sup option" where
  "mainStep s =
     (case pc s of
        AtCtxDone \<Rightarrow>
          if ctx_Done s then Some (s\<lparr>stopTask := Launched, pc := AtWait\<rparr>) else None
      | AtWait \<Rightarrow>
          if wg_idle s then
            (let (err, s') = eg_Wait s in
             Some (s'\<lparr>pc := Returned (exitStatus err),
                      trace := trace s' @ [NotifyStop, LogSync]\<rparr>))
          else None
      | Returned c \<Rightarrow> None)"

fun step :: "sup \<Rightarrow> event \<Rightarrow> sup option" where
  "step s Signal =
     (case pc s of Returned c \<Rightarrow> None | _ \<Rightarrow> Some (s\<lparr>signalled := True\<rparr>))"
| "step s StartCall =
     (if startTask s = Launched
      then Some (s\<lparr>startTask := Running, trace := trace s @ [ServerStart]\<rparr>)
      else None)"
| "step s (StartRet r) =
     (if startTask s = Running
      then Some (eg_taskDone r (logged ''Error starting server'' r (s\<lparr>startTask := Finished r\<rparr>)))
      else None)"
| "step s StopCall =
     (if stopTask s = Launched
      then Some (s\<lparr>stopTask := Running, trace := trace s @ [ServerStop]\<rparr>)
      else None)"
| "step s (StopRet r) =
     (if stopTask s = Running
      then Some (eg_taskDone r (logged ''Error stopping server'' r (s\<lparr>stopTask := Finished r\<rparr>)))
      else None)"
| "step s MainStep = mainStep s"

fun run :: "event list \<Rightarrow> sup \<Rightarrow> sup option" where
  "run [] s = Some s"
| "run (e # es) s = (case step s e of None \<Rightarrow> None | Some s' \<Rightarrow> run es s')"

subsection \<open>The function \<^verbatim>\<open>start\<close>\<close>

text \<open>
  Lines 31-62 are sequential. A failing logger or AWS configuration returns 1 at once;
  otherwise the database, the queue and the server are constructed, the signal context
  and the errgroup are set up, and the first \<^verbatim>\<open>eg.Go\<close> launches the task that calls
  \<^verbatim>\<open>s.Start()\<close>. \<open>start w es\<close> is the state the process is in after the events \<open>es\<close>, or
  \<open>None\<close> when \<open>es\<close> is not a possible run.
\<close>

definition exited :: "int \<Rightarrow> action list \<Rightarrow> sup" where
  "exited c tr =
     \<lparr>pc = Returned c, startTask = NotLaunched, stopTask = NotLaunched, signalled = False,
      egErr = None, egOnce = False, egCancelled = False, trace = tr\<rparr>"

definition launched :: "action list \<Rightarrow> sup" where
  "launched tr =
     \<lparr>pc = AtCtxDone, startTask = Launched, stopTask = NotLaunched, signalled = False,
      egErr = None, egOnce = False, egCancelled = False, trace = tr\<rparr>"

definition start_init :: "world \<Rightarrow> sup" where
  "start_init w =
     (case createLogger w ''development'' of
        Inl err \<Rightarrow> exited 1 [EnvLoad, Println ''Error setting up logger: '' err]
      | Inr log \<Rightarrow>
          (case config_LoadDefaultConfig w of
             Some err \<Rightarrow> exited 1 [EnvLoad, LogInfo ''Error creating AWS config'' err, LogSync]
           | None \<Rightarrow> launched [EnvLoad, NewDatabase, NewQueue, ServerNew]))"

definition start :: "world \<Rightarrow> event list \<Rightarrow> sup option" where
  "start w es = run es (start_init w)"

text \<open>A world in which the logger and the AWS configuration are created without error.\<close>

definition world_ok :: world where
  "world_ok = \<lparr>zap_NewProduction = Inr ProductionLogger,
               zap_NewDevelopment = Inr DevelopmentLogger,
               config_LoadDefaultConfig = None\<rparr>"

text \<open>
  The run reaches the component phase (line 56 and after) when neither the logger nor the
  AWS configuration fails.
\<close>

definition componentPhase :: "world \<Rightarrow> bool" where
  "componentPhase w =
     (\<not> isl (createLogger w ''development'') \<and> config_LoadDefaultConfig w = None)"

subsection \<open>Observations on a state\<close>

text \<open>
  \<open>calls a s\<close> counts the occurrences of an action in the trace; \<open>called t\<close> says that
  the goroutine of a task has made its call; \<open>task_errs t\<close> is the error a finished
  task produced, if any; \<open>steps_done s\<close> counts the steps the three goroutines have
  taken (two each at most).
\<close>

definition calls :: "action \<Rightarrow> sup \<Rightarrow> nat" where
  "calls a s = count_list (trace s) a"

definition called :: "task \<Rightarrow> bool" where
  "called t = (case t of Running \<Rightarrow> True | Finished r \<Rightarrow> True | _ \<Rightarrow> False)"

definition task_errs :: "task \<Rightarrow> error set" where
  "task_errs t = (case t of Finished (Some err) \<Rightarrow> {err} | _ \<Rightarrow> {})"

definition task_steps :: "task \<Rightarrow> nat" where
  "task_steps t = (case t of NotLaunched \<Rightarrow> 0 | Launched \<Rightarrow> 0 | Running \<Rightarrow> 1 | Finished r \<Rightarrow> 2)"

definition steps_done :: "sup \<Rightarrow> nat" where
  "steps_done s =
     (case pc s of AtCtxDone \<Rightarrow> 0 | AtWait \<Rightarrow> 1 | Returned c \<Rightarrow> 2)
     + task_steps (startTask s) + task_steps (stopTask s)"



subsection \<open>Components with a contract\<close>

text \<open>
  The model lets \<^verbatim>\<open>s.Start()\<close> and \<^verbatim>\<open>s.Stop()\<close> return anything at any time. A contract
  restricts the events a component allows in a state, and \<open>obeys c es s\<close> says that the
  run \<open>es\<close> from \<open>s\<close> is possible and stays within the contract \<open>c\<close>. The contract
  \<open>blocksUntilStop\<close> is the well-behaved server: \<^verbatim>\<open>Start\<close> returns only after \<^verbatim>\<open>Stop\<close> has
  been called, and both return \<^verbatim>\<open>nil\<close>.
\<close>

fun obeys :: "(sup \<Rightarrow> event \<Rightarrow> bool) \<Rightarrow> event list \<Rightarrow> sup \<Rightarrow> bool" where
  "obeys c [] s = True"
| "obeys c (e # es) s =
     (c s e \<and> (case step s e of None \<Rightarrow> False | Some s' \<Rightarrow> obeys c es s'))"

definition blocksUntilStop :: "sup \<Rightarrow> event \<Rightarrow> bool" where
  "blocksUntilStop s e =
     (case e of
        StartRet r \<Rightarrow> r = None \<and> ServerStop \<in> set (trace s)
      | StopRet r \<Rightarrow> r = None
      | _ \<Rightarrow> True)"

subsection \<open>Invariants of the component phase\<close>

text \<open>
  Four invariants of the states a run reaches after line 74. Control: the stop task
  exists exactly when the main goroutine has passed line 76, which it does only with the
  context done, and it returns only with both tasks finished, reporting the group's
  error. Errgroup: \<^verbatim>\<open>g.err\<close> is set exactly when some task has produced an error, it is
  one of the errors produced, and the group has cancelled the context exactly when it
  holds an error or \<^verbatim>\<open>Wait\<close> has returned. Trace: \<^verbatim>\<open>Start\<close> and \<^verbatim>\<open>Stop\<close> are in the trace
  once when their task has called them and never otherwise, and every error a task
  produced has been logged. Quiet: with no signal delivered and no error from \<^verbatim>\<open>Start\<close>,
  the main goroutine is still at line 76.
\<close>

definition ctl_inv :: "sup \<Rightarrow> bool" where
  "ctl_inv s =
     (startTask s \<noteq> NotLaunched
      \<and> (pc s = AtCtxDone \<longrightarrow> stopTask s = NotLaunched)
      \<and> (pc s \<noteq> AtCtxDone \<longrightarrow> stopTask s \<noteq> NotLaunched \<and> ctx_Done s)
      \<and> (\<forall>c. pc s = Returned c \<longrightarrow>
            wg_idle s \<and> egCancelled s \<and> c = exitStatus (egErr s)))"

definition eg_inv :: "sup \<Rightarrow> bool" where
  "eg_inv s =
     (egOnce s = (egErr s \<noteq> None)
      \<and> (egErr s = None \<longrightarrow> task_errs (startTask s) = {} \<and> task_errs (stopTask s) = {})
      \<and> set_option (egErr s) \<subseteq> task_errs (startTask s) \<union> task_errs (stopTask s)
      \<and> (egErr s \<noteq> None \<longrightarrow> egCancelled s)
      \<and> (egCancelled s \<longrightarrow> egErr s \<noteq> None \<or> (\<exists>c. pc s = Returned c)))"

definition trace_inv :: "sup \<Rightarrow> bool" where
  "trace_inv s =
     (calls ServerStart s = (if called (startTask s) then 1 else 0)
      \<and> calls ServerStop s = (if called (stopTask s) then 1 else 0)
      \<and> (\<forall>err. startTask s = Finished (Some err) \<longrightarrow>
             LogInfo ''Error starting server'' err \<in> set (trace s))
      \<and> (\<forall>err. stopTask s = Finished (Some err) \<longrightarrow>
             LogInfo ''Error stopping server'' err \<in> set (trace s)))"

definition quiet_inv :: "sup \<Rightarrow> bool" where
  "quiet_inv s =
     (\<not> signalled s \<and> task_errs (startTask s) = {} \<longrightarrow>
        pc s = AtCtxDone \<and> stopTask s = NotLaunched \<and> \<not> egCancelled s)"

definition reach_inv :: "sup \<Rightarrow> bool" where
  "reach_inv s = (ctl_inv s \<and> eg_inv s \<and> trace_inv s \<and> quiet_inv s)"

text \<open>Under the contract \<open>blocksUntilStop\<close> no task ever produces an error.\<close>

definition no_errs :: "sup \<Rightarrow> bool" where
  "no_errs s = (task_errs (startTask s) = {} \<and> task_errs (stopTask s) = {})"

text \<open>A world in which \<^verbatim>\<open>config.LoadDefaultConfig\<close> fails.\<close>

definition world_noconfig :: world where
  "world_noconfig = world_ok\<lparr>config_LoadDefaultConfig := Some ''no region''\<rparr>"

text \<open>
  Three states of runs in \<open>world_ok\<close>: \<^verbatim>\<open>Start\<close> has returned \<^verbatim>\<open>nil\<close> and no signal has
  been delivered; \<^verbatim>\<open>Start\<close> has returned the error \<^verbatim>\<open>boom\<close>; \<^verbatim>\<open>Start\<close> has returned the
  error \<^verbatim>\<open>Ea\<close>, then \<^verbatim>\<open>Stop\<close> the error \<^verbatim>\<open>Eb\<close>, and the main goroutine is about to
  leave \<^verbatim>\<open>eg.Wait()\<close>.
\<close>

definition start_returned_nil :: sup where
  "start_returned_nil =
     \<lparr>pc = AtCtxDone, startTask = Finished None, stopTask = NotLaunched, signalled = False,
      egErr = None, egOnce = False, egCancelled = False,
      trace = [EnvLoad, NewDatabase, NewQueue, ServerNew, ServerStart]\<rparr>"

definition start_failed :: sup where
  "start_failed =
     \<lparr>pc = AtCtxDone, startTask = Finished (Some ''boom''), stopTask = NotLaunched,
      signalled = False, egErr = Some ''boom'', egOnce = True, egCancelled = True,
      trace = [EnvLoad, NewDatabase, NewQueue, ServerNew, ServerStart,
               LogInfo ''Error starting server'' ''boom'']\<rparr>"

definition both_failed :: sup where
  "both_failed =
     \<lparr>pc = AtWait, startTask = Finished (Some ''Ea''), stopTask = Finished (Some ''Eb''),
      signalled = False, egErr = Some ''Ea'', egOnce = True, egCancelled = True,
      trace = [EnvLoad, NewDatabase, NewQueue, ServerNew, ServerStart,
               LogInfo ''Error starting server'' ''Ea'', ServerStop,
               LogInfo ''Error stopping server'' ''Eb'']\<rparr>"

text \<open>
  The final state of the graceful run in \<open>world_ok\<close>: a signal arrives while \<^verbatim>\<open>Start\<close> is
  in flight, \<^verbatim>\<open>Stop\<close> is called and returns \<^verbatim>\<open>nil\<close>, then \<^verbatim>\<open>Start\<close> returns \<^verbatim>\<open>nil\<close>.
\<close>

definition shut_down :: sup where
  "shut_down =
     \<lparr>pc = Returned 0, startTask = Finished None, stopTask = Finished None,
      signalled = True, egErr = None, egOnce = False, egCancelled = True,
      trace = [EnvLoad, NewDatabase, NewQueue, ServerNew, ServerStart, ServerStop,
               NotifyStop, LogSync]\<rparr>"


text \<open>The state of the run in \<open>world_ok\<close> when a signal has arrived with \<^verbatim>\<open>Start\<close> in flight.\<close>

definition start_signalled :: sup where
  "start_signalled =
     \<lparr>pc = AtCtxDone, startTask = Running, stopTask = NotLaunched,
      signalled = True, egErr = None, egOnce = False, egCancelled = False,
      trace = [EnvLoad, NewDatabase, NewQueue, ServerNew, ServerStart]\<rparr>"

subsection \<open>The configuration values read from the environment\<close>

text \<open>
  The values the process reads are not read with the two helpers of lines 131-149, which
  nothing calls, but with \<^verbatim>\<open>env.GetStringOrDefault\<close>, \<^verbatim>\<open>env.GetIntOrDefault\<close> and
  \<^verbatim>\<open>env.GetDurationOrDefault\<close> of the package github.com/maragudk/env: host and port in
  \<^verbatim>\<open>start\<close> (lines 44-45), the database settings in \<^verbatim>\<open>createDatabase\<close> (lines 151-163), the
  queue name and wait time in \<^verbatim>\<open>createQueue\<close> (lines 165-172). The environment \<open>env\<close> is
  the one these reads see, after \<^verbatim>\<open>env.Load()\<close> of line 31.
\<close>

text \<open>
  Modelled from the spec: \<^verbatim>\<open>env.GetStringOrDefault\<close> of the package
  github.com/maragudk/env is missing from the repository's files. The spec (section 6,
  process environment) says that the absence of a value falls back to its default rather
  than failing. For a value that is present the spec says nothing; it is returned as it
  is, as in \<^verbatim>\<open>getStringOrDefault\<close> of main.go.
\<close>

definition env_GetStringOrDefault :: "environ \<Rightarrow> string \<Rightarrow> string \<Rightarrow> string" where
  "env_GetStringOrDefault env name defaultV =
     (case env name of None \<Rightarrow> defaultV | Some v \<Rightarrow> v)"

text \<open>
  Modelled from the spec: \<^verbatim>\<open>env.GetIntOrDefault\<close> of the package github.com/maragudk/env is
  missing from the repository's files. The spec says that the absence of a value falls
  back to its default rather than failing. For a value that is present the spec says
  nothing; it is parsed with \<^verbatim>\<open>strconv.Atoi\<close>, with the default on a parse error, as in
  \<^verbatim>\<open>getIntOrDefault\<close> of main.go.
\<close>

definition env_GetIntOrDefault :: "environ \<Rightarrow> string \<Rightarrow> int \<Rightarrow> int" where
  "env_GetIntOrDefault env name defaultV =
     (case env name of
        None \<Rightarrow> defaultV
      | Some v \<Rightarrow> (case strconv_Atoi v of Inl err \<Rightarrow> defaultV | Inr vAsInt \<Rightarrow> vAsInt))"

text \<open>
  Modelled from the spec: \<^verbatim>\<open>env.GetDurationOrDefault\<close> of the package
  github.com/maragudk/env is missing from the repository's files. The spec says that the
  absence of a value falls back to its default rather than failing. For a value that is
  present the spec says nothing; the parser of durations is a parameter, and the default
  is taken on a parse error as for integers. A duration is a number of nanoseconds, as
  Go's \<^verbatim>\<open>time.Duration\<close>.
\<close>

definition env_GetDurationOrDefault ::
  "(string \<Rightarrow> error + int) \<Rightarrow> environ \<Rightarrow> string \<Rightarrow> int \<Rightarrow> int" where
  "env_GetDurationOrDefault time_ParseDuration env name defaultV =
     (case env name of
        None \<Rightarrow> defaultV
      | Some v \<Rightarrow>
          (case time_ParseDuration v of Inl err \<Rightarrow> defaultV | Inr vAsDuration \<Rightarrow> vAsDuration))"

text \<open>Go's constants \<^verbatim>\<open>time.Second\<close> and \<^verbatim>\<open>time.Hour\<close>, in nanoseconds.\<close>

definition time_Second :: int where
  "time_Second = 1000000000"

definition time_Hour :: int where
  "time_Hour = 3600 * time_Second"

text \<open>
  The options handed to \<^verbatim>\<open>server.New\<close>, \<^verbatim>\<open>storage.NewDatabase\<close> and \<^verbatim>\<open>messaging.NewQueue\<close>,
  with the fields that are read from the environment (the logger and the AWS
  configuration are passed through). \<open>serverOptions\<close> is lines 44-45 with the fields
  \<^verbatim>\<open>Host\<close> and \<^verbatim>\<open>Port\<close> of lines 58 and 60; \<open>createDatabase\<close> and \<open>createQueue\<close> are the
  functions of the same name, up to the constructor call: they give the options that the
  calls recorded as \<open>NewDatabase\<close> and \<open>NewQueue\<close> in the trace of a run receive, as
  \<open>serverOptions\<close> gives those of \<open>ServerNew\<close>.
\<close>

record server_Options =
  srv_Host :: string
  srv_Port :: int

record storage_NewDatabaseOptions =
  db_Host :: string
  db_Port :: int
  db_User :: string
  db_Password :: string
  db_Name :: string
  db_MaxOpenConnections :: int
  db_MaxIdleConnections :: int
  db_ConnectionMaxLifetime :: int

record messaging_NewQueueOptions =
  q_Name :: string
  q_WaitTime :: int

definition serverOptions :: "environ \<Rightarrow> server_Options" where
  "serverOptions env =
     (let host = env_GetStringOrDefault env ''HOST'' ''localhost'';
          port = env_GetIntOrDefault env ''PORT'' 8080
      in \<lparr>srv_Host = host, srv_Port = port\<rparr>)"

definition createDatabase ::
  "(string \<Rightarrow> error + int) \<Rightarrow> environ \<Rightarrow> storage_NewDatabaseOptions" where
  "createDatabase time_ParseDuration env =
     \<lparr>db_Host = env_GetStringOrDefault env ''DB_HOST'' ''localhost'',
      db_Port = env_GetIntOrDefault env ''DB_PORT'' 5432,
      db_User = env_GetStringOrDefault env ''DB_USER'' '''',
      db_Password = env_GetStringOrDefault env ''DB_PASSWORD'' '''',
      db_Name = env_GetStringOrDefault env ''DB_NAME'' '''',
      db_MaxOpenConnections = env_GetIntOrDefault env ''DB_MAX_OPEN_CONNECTIONS'' 10,
      db_MaxIdleConnections = env_GetIntOrDefault env ''DB_MAX_IDLE_CONNECTIONS'' 10,
      db_ConnectionMaxLifetime =
        env_GetDurationOrDefault time_ParseDuration env ''DB_CONNECTION_MAX_LIFETIME'' time_Hour\<rparr>"

definition createQueue ::
  "(string \<Rightarrow> error + int) \<Rightarrow> environ \<Rightarrow> messaging_NewQueueOptions" where
  "createQueue time_ParseDuration env =
     \<lparr>q_Name = env_GetStringOrDefault env ''QUEUE_NAME'' ''jobs'',
      q_WaitTime =
        env_GetDurationOrDefault time_ParseDuration env ''QUEUE_WAIT_TIME'' (20 * time_Second)\<rparr>"

text \<open>
  The final state of the run in \<open>world_ok\<close> in which \<^verbatim>\<open>Start\<close> returns the error \<^verbatim>\<open>boom\<close>
  and \<^verbatim>\<open>Stop\<close> then returns \<^verbatim>\<open>nil\<close>.
\<close>

definition boom_returned :: sup where
  "boom_returned =
     \<lparr>pc = Returned 1, startTask = Finished (Some ''boom''), stopTask = Finished None,
      signalled = False, egErr = Some ''boom'', egOnce = True, egCancelled = True,
      trace = [EnvLoad, NewDatabase, NewQueue, ServerNew, ServerStart,
               LogInfo ''Error starting server'' ''boom'', ServerStop, NotifyStop, LogSync]\<rparr>"

section \<open>Properties of the environment helpers\<close>

lemma os_LookupEnv_unset: "env name = None \<Longrightarrow> os_LookupEnv env name = ('''', False)"
  by (simp add: os_LookupEnv_def)

lemma os_LookupEnv_set: "env name = Some v \<Longrightarrow> os_LookupEnv env name = (v, True)"
  by (simp add: os_LookupEnv_def)

text \<open>
  Claim C6. Every configuration value the process reads from its environment falls back
  to its default when the variable is absent, and nothing fails: \<^verbatim>\<open>HOST\<close> and \<^verbatim>\<open>PORT\<close>,
  the eight database settings, the queue name and the queue wait time. So do the helpers
  themselves, for every name and default: \<^verbatim>\<open>getStringOrDefault(name, d)\<close> and
  \<^verbatim>\<open>getIntOrDefault(name, d)\<close> of main.go return \<open>d\<close> when \<open>name\<close> is unset, and so do the
  three helpers of the package env that the reads go through.
\<close>

theorem C6_unset_returns_default:
  "(env name = None \<longrightarrow>
      getStringOrDefault env name ds = ds \<and> getIntOrDefault env name di = di
      \<and> env_GetStringOrDefault env name ds = ds \<and> env_GetIntOrDefault env name di = di
      \<and> env_GetDurationOrDefault pd env name dd = dd)
   \<and> (env ''HOST'' = None \<longrightarrow> srv_Host (serverOptions env) = ''localhost'')
   \<and> (env ''PORT'' = None \<longrightarrow> srv_Port (serverOptions env) = 8080)
   \<and> (env ''DB_HOST'' = None \<longrightarrow> db_Host (createDatabase pd env) = ''localhost'')
   \<and> (env ''DB_PORT'' = None \<longrightarrow> db_Port (createDatabase pd env) = 5432)
   \<and> (env ''DB_USER'' = None \<longrightarrow> db_User (createDatabase pd env) = '''')
   \<and> (env ''DB_PASSWORD'' = None \<longrightarrow> db_Password (createDatabase pd env) = '''')
   \<and> (env ''DB_NAME'' = None \<longrightarrow> db_Name (createDatabase pd env) = '''')
   \<and> (env ''DB_MAX_OPEN_CONNECTIONS'' = None \<longrightarrow>
         db_MaxOpenConnections (createDatabase pd env) = 10)
   \<and> (env ''DB_MAX_IDLE_CONNECTIONS'' = None \<longrightarrow>
         db_MaxIdleConnections (createDatabase pd env) = 10)
   \<and> (env ''DB_CONNECTION_MAX_LIFETIME'' = None \<longrightarrow>
         db_ConnectionMaxLifetime (createDatabase pd env) = time_Hour)
   \<and> (env ''QUEUE_NAME'' = None \<longrightarrow> q_Name (createQueue pd env) = ''jobs'')
   \<and> (env ''QUEUE_WAIT_TIME'' = None \<longrightarrow> q_WaitTime (createQueue pd env) = 20 * time_Second)"
  by (simp add: getStringOrDefault_def getIntOrDefault_def os_LookupEnv_def
      env_GetStringOrDefault_def env_GetIntOrDefault_def env_GetDurationOrDefault_def
      serverOptions_def createDatabase_def createQueue_def)

theorem C6_unset_returns_default_witness:
  "Map.empty ''HOST'' = (None :: string option)
   \<and> getStringOrDefault Map.empty ''HOST'' ''localhost'' = ''localhost''
   \<and> getIntOrDefault Map.empty ''HOST'' 8080 = 8080
   \<and> serverOptions Map.empty = \<lparr>srv_Host = ''localhost'', srv_Port = 8080\<rparr>
   \<and> createDatabase (\<lambda>v. Inl ''unused'') Map.empty
       = \<lparr>db_Host = ''localhost'', db_Port = 5432, db_User = '''', db_Password = '''',
          db_Name = '''', db_MaxOpenConnections = 10, db_MaxIdleConnections = 10,
          db_ConnectionMaxLifetime = 3600000000000\<rparr>
   \<and> createQueue (\<lambda>v. Inl ''unused'') Map.empty
       = \<lparr>q_Name = ''jobs'', q_WaitTime = 20000000000\<rparr>"
  using C6_unset_returns_default
    [of Map.empty "''HOST''" "''localhost''" 8080 "\<lambda>v. Inl ''unused''" 0]
  by (simp add: time_Hour_def time_Second_def)

text \<open>
  Claim C8. When the variable is present but \<^verbatim>\<open>strconv.Atoi\<close> rejects its value,
  \<^verbatim>\<open>getIntOrDefault(name, d)\<close> returns the default \<open>d\<close>; the parse error is dropped.
\<close>

theorem C8_unparsable_returns_default:
  assumes "env name = Some v" and "strconv_Atoi v = Inl e"
  shows "getIntOrDefault env name d = d"
  using assms
  by (simp add: getIntOrDefault_def os_LookupEnv_set)

lemma Atoi_rejects_8o80: "strconv_Atoi ''8o80'' = Inl ErrSyntax"
  by (simp add: strconv_Atoi_def strconv_ParseUint_def is_digit_def digit_val_def)

theorem C8_unparsable_returns_default_witness:
  "[''PORT'' \<mapsto> ''8o80''] ''PORT'' = Some ''8o80''
   \<and> strconv_Atoi ''8o80'' = Inl ErrSyntax
   \<and> getIntOrDefault [''PORT'' \<mapsto> ''8o80''] ''PORT'' 8080 = 8080"
proof -
  have h: "[''PORT'' \<mapsto> ''8o80''] ''PORT'' = Some ''8o80''" by simp
  show ?thesis
    using h Atoi_rejects_8o80
      C8_unparsable_returns_default
        [of "[''PORT'' \<mapsto> ''8o80'']" "''PORT''" "''8o80''" ErrSyntax 8080]
    by simp
qed

section \<open>Properties of the endpoint resolver\<close>

text \<open>
  Claim C10. With \<open>u\<close> the value read for \<^verbatim>\<open>SQS_ENDPOINT_URL\<close>, the resolver returns
  the endpoint with URL \<open>u\<close> and no error exactly when \<open>u\<close> is non-empty and the
  requested service is \<^verbatim>\<open>sqs.ServiceID\<close>; in every other case it returns the zero
  endpoint together with \<^verbatim>\<open>EndpointNotFoundError\<close>.
\<close>

theorem C10_endpoint_resolver:
  fixes getenv :: "string \<Rightarrow> string \<Rightarrow> string"
  defines "u \<equiv> getenv ''SQS_ENDPOINT_URL'' ''''"
  shows "(createAWSEndpointResolver getenv sid service region = (\<lparr>URL = u\<rparr>, None))
           = (u \<noteq> '''' \<and> service = sid)
       \<and> (createAWSEndpointResolver getenv sid service region
             = (\<lparr>URL = ''''\<rparr>, Some EndpointNotFoundError))
           = (\<not> (u \<noteq> '''' \<and> service = sid))"
  by (auto simp: createAWSEndpointResolver_def u_def Let_def)

section \<open>Steps and invariants\<close>

text \<open>What each event requires of a state and what it changes.\<close>

lemma eg_taskDone_fields [simp]:
  "pc (eg_taskDone r s) = pc s"
  "startTask (eg_taskDone r s) = startTask s"
  "stopTask (eg_taskDone r s) = stopTask s"
  "signalled (eg_taskDone r s) = signalled s"
  "trace (eg_taskDone r s) = trace s"
  "egOnce (eg_taskDone r s) = (egOnce s \<or> r \<noteq> None)"
  "egErr (eg_taskDone r s) = (if egOnce s \<or> r = None then egErr s else r)"
  "egCancelled (eg_taskDone r s) = (egCancelled s \<or> (r \<noteq> None \<and> \<not> egOnce s))"
  by (cases r; simp add: eg_taskDone_def)+

lemma logged_fields [simp]:
  "pc (logged m r s) = pc s"
  "startTask (logged m r s) = startTask s"
  "stopTask (logged m r s) = stopTask s"
  "signalled (logged m r s) = signalled s"
  "egOnce (logged m r s) = egOnce s"
  "egErr (logged m r s) = egErr s"
  "egCancelled (logged m r s) = egCancelled s"
  "trace (logged m r s) = trace s @ (case r of None \<Rightarrow> [] | Some err \<Rightarrow> [LogInfo m err])"
  by (cases r; simp add: logged_def)+

lemma step_Signal_iff:
  "step s Signal = Some s' \<longleftrightarrow> (\<forall>c. pc s \<noteq> Returned c) \<and> s' = s\<lparr>signalled := True\<rparr>"
  by (cases "pc s") auto

lemma step_StartCall_iff:
  "step s StartCall = Some s' \<longleftrightarrow>
     startTask s = Launched \<and> s' = s\<lparr>startTask := Running, trace := trace s @ [ServerStart]\<rparr>"
  by auto

lemma step_StartRet_iff:
  "step s (StartRet r) = Some s' \<longleftrightarrow>
     startTask s = Running
     \<and> s' = eg_taskDone r (logged ''Error starting server'' r (s\<lparr>startTask := Finished r\<rparr>))"
  by auto

lemma step_StopCall_iff:
  "step s StopCall = Some s' \<longleftrightarrow>
     stopTask s = Launched \<and> s' = s\<lparr>stopTask := Running, trace := trace s @ [ServerStop]\<rparr>"
  by auto

lemma step_StopRet_iff:
  "step s (StopRet r) = Some s' \<longleftrightarrow>
     stopTask s = Running
     \<and> s' = eg_taskDone r (logged ''Error stopping server'' r (s\<lparr>stopTask := Finished r\<rparr>))"
  by auto

lemma step_MainStep_iff:
  "step s MainStep = Some s' \<longleftrightarrow>
     (pc s = AtCtxDone \<and> ctx_Done s \<and> s' = s\<lparr>stopTask := Launched, pc := AtWait\<rparr>)
     \<or> (pc s = AtWait \<and> wg_idle s
         \<and> s' = s\<lparr>egCancelled := True, pc := Returned (exitStatus (egErr s)),
                   trace := trace s @ [NotifyStop, LogSync]\<rparr>)"
  by (cases "pc s") (auto simp: mainStep_def eg_Wait_def)

lemmas step_iffs = step_Signal_iff step_StartCall_iff step_StartRet_iff step_StopCall_iff
  step_StopRet_iff step_MainStep_iff


declare step.simps [simp del]

lemma run_invariant:
  assumes "\<And>s e s'. P s \<Longrightarrow> step s e = Some s' \<Longrightarrow> P s'"
    and "P s" and "run es s = Some s'"
  shows "P s'"
  using assms(2,3)
proof (induction es arbitrary: s)
  case Nil
  then show ?case by simp
next
  case (Cons e es)
  from Cons.prems(2) obtain s1 where s1: "step s e = Some s1" and r: "run es s1 = Some s'"
    by (auto split: option.splits)
  from assms(1) [OF Cons.prems(1) s1] have "P s1" .
  from Cons.IH [OF this r] show ?case .
qed

lemma ctl_inv_step:
  assumes "ctl_inv s" and "step s e = Some s'"
  shows "ctl_inv s'"
proof (cases e)
  case Signal
  with assms show ?thesis
    by (auto simp: step_iffs ctl_inv_def ctx_Done_def wg_idle_def)
next
  case StartCall
  with assms show ?thesis
    by (auto simp: step_iffs ctl_inv_def ctx_Done_def wg_idle_def taskDone_def)
next
  case (StartRet r)
  with assms show ?thesis
    by (auto simp: step_iffs ctl_inv_def ctx_Done_def wg_idle_def taskDone_def)
next
  case StopCall
  with assms show ?thesis
    by (auto simp: step_iffs ctl_inv_def ctx_Done_def wg_idle_def taskDone_def)
next
  case (StopRet r)
  with assms show ?thesis
    by (auto simp: step_iffs ctl_inv_def ctx_Done_def wg_idle_def taskDone_def)
next
  case MainStep
  with assms show ?thesis
    by (auto simp: step_iffs ctl_inv_def ctx_Done_def wg_idle_def taskDone_def)
qed

lemma eg_inv_step:
  assumes "eg_inv s" and "ctl_inv s" and "step s e = Some s'"
  shows "eg_inv s'"
proof (cases e)
  case Signal
  with assms show ?thesis
    by (auto simp: step_iffs eg_inv_def)
next
  case StartCall
  with assms show ?thesis
    by (auto simp: step_iffs eg_inv_def task_errs_def)
next
  case (StartRet r)
  with assms show ?thesis
    by (cases r) (auto simp: step_iffs eg_inv_def task_errs_def)
next
  case StopCall
  with assms show ?thesis
    by (auto simp: step_iffs eg_inv_def task_errs_def)
next
  case (StopRet r)
  with assms show ?thesis
    by (cases r) (auto simp: step_iffs eg_inv_def task_errs_def)
next
  case MainStep
  with assms show ?thesis
    by (auto simp: step_iffs eg_inv_def task_errs_def ctl_inv_def)
qed

lemma trace_inv_step:
  assumes "trace_inv s" and "ctl_inv s" and "step s e = Some s'"
  shows "trace_inv s'"
proof (cases e)
  case Signal
  with assms show ?thesis
    by (auto simp: step_iffs trace_inv_def calls_def)
next
  case StartCall
  with assms show ?thesis
    by (auto simp: step_iffs trace_inv_def calls_def called_def)
next
  case (StartRet r)
  with assms show ?thesis
    by (cases r) (auto simp: step_iffs trace_inv_def calls_def called_def)
next
  case StopCall
  with assms show ?thesis
    by (auto simp: step_iffs trace_inv_def calls_def called_def)
next
  case (StopRet r)
  with assms show ?thesis
    by (cases r) (auto simp: step_iffs trace_inv_def calls_def called_def)
next
  case MainStep
  with assms show ?thesis
    by (auto simp: step_iffs trace_inv_def calls_def called_def ctl_inv_def)
qed

lemma quiet_inv_step:
  assumes "quiet_inv s" and "step s e = Some s'"
  shows "quiet_inv s'"
proof (cases e)
  case Signal
  with assms show ?thesis
    by (auto simp: step_iffs quiet_inv_def)
next
  case StartCall
  with assms show ?thesis
    by (auto simp: step_iffs quiet_inv_def task_errs_def)
next
  case (StartRet r)
  with assms show ?thesis
    by (cases r) (auto simp: step_iffs quiet_inv_def task_errs_def)
next
  case StopCall
  with assms show ?thesis
    by (auto simp: step_iffs quiet_inv_def task_errs_def)
next
  case (StopRet r)
  with assms show ?thesis
    by (cases r) (auto simp: step_iffs quiet_inv_def task_errs_def)
next
  case MainStep
  with assms show ?thesis
    by (auto simp: step_iffs quiet_inv_def task_errs_def ctx_Done_def)
qed

lemma reach_inv_step:
  assumes "reach_inv s" and "step s e = Some s'"
  shows "reach_inv s'"
  using assms ctl_inv_step [of s e s'] eg_inv_step [of s e s'] trace_inv_step [of s e s']
    quiet_inv_step [of s e s']
  by (simp add: reach_inv_def)

lemma reach_inv_launched:
  assumes "ServerStart \<notin> set tr" and "ServerStop \<notin> set tr"
  shows "reach_inv (launched tr)"
  using assms
  by (simp add: reach_inv_def ctl_inv_def eg_inv_def trace_inv_def quiet_inv_def launched_def
      calls_def called_def task_errs_def)

lemma start_init_phase:
  assumes "componentPhase w"
  shows "start_init w = launched [EnvLoad, NewDatabase, NewQueue, ServerNew]"
  using assms
  by (cases "createLogger w ''development''") (simp_all add: componentPhase_def start_init_def)

lemma reach_inv_start:
  assumes "componentPhase w" and "start w es = Some s"
  shows "reach_inv s"
proof -
  have i: "reach_inv (start_init w)"
    by (simp add: start_init_phase [OF assms(1)] reach_inv_launched)
  from assms(2) have r: "run es (start_init w) = Some s"
    by (simp add: start_def)
  show ?thesis
    by (rule run_invariant [where P = reach_inv, OF reach_inv_step i r])
qed

lemma step_returned:
  assumes "pc s = Returned c" and "wg_idle s"
  shows "step s e = None"
  using assms
  by (cases e) (auto simp: step.simps mainStep_def wg_idle_def taskDone_def split: task.splits)

lemma run_returned:
  assumes "pc s = Returned c" and "wg_idle s"
  shows "run (e # es) s = None"
  by (simp add: step_returned [OF assms])

lemma start_init_failed:
  assumes "\<not> componentPhase w"
  shows "\<exists>tr. start_init w = exited 1 tr
           \<and> set tr \<inter> {NewDatabase, NewQueue, ServerNew, ServerStart, ServerStop} = {}"
proof (cases "createLogger w ''development''")
  case (Inl err)
  then show ?thesis
    by (intro exI [of _ "[EnvLoad, Println ''Error setting up logger: '' err]"])
      (simp add: start_init_def)
next
  case (Inr log)
  with assms obtain err where "config_LoadDefaultConfig w = Some err"
    by (auto simp: componentPhase_def)
  with Inr show ?thesis
    by (intro exI [of _ "[EnvLoad, LogInfo ''Error creating AWS config'' err, LogSync]"])
      (simp add: start_init_def)
qed

lemma exit_code_step:
  assumes "\<forall>c. pc s = Returned c \<longrightarrow> c = 0 \<or> c = 1" and "step s e = Some s'"
  shows "\<forall>c. pc s' = Returned c \<longrightarrow> c = 0 \<or> c = 1"
  using assms by (cases e) (auto simp: step_iffs exitStatus_def split: if_splits)

lemma exit_code_init: "\<forall>c. pc (start_init w) = Returned c \<longrightarrow> c = 0 \<or> c = 1"
proof (cases "componentPhase w")
  case True
  then show ?thesis by (simp add: start_init_phase launched_def)
next
  case False
  from start_init_failed [OF this] show ?thesis by (auto simp: exited_def)
qed

lemma run_snoc:
  "run (es @ [e]) s = (case run es s of None \<Rightarrow> None | Some s1 \<Rightarrow> step s1 e)"
  by (induction es arbitrary: s) (auto split: option.splits)

lemma ctl_inv_launched: "ctl_inv (launched tr)"
  by (simp add: ctl_inv_def launched_def)

lemma ctl_inv_run:
  assumes "run es (launched tr) = Some s"
  shows "ctl_inv s"
  by (rule run_invariant [where P = ctl_inv, OF ctl_inv_step ctl_inv_launched assms])

lemma results_in_events:
  assumes "run es (launched tr) = Some s"
  shows "(\<forall>r. (startTask s = Finished r) = (StartRet r \<in> set es))
       \<and> (\<forall>r. (stopTask s = Finished r) = (StopRet r \<in> set es))"
  using assms
proof (induction es arbitrary: s rule: rev_induct)
  case Nil
  then show ?case by (auto simp: launched_def)
next
  case (snoc e es)
  from snoc.prems obtain s1 where r: "run es (launched tr) = Some s1" and st: "step s1 e = Some s"
    by (auto simp: run_snoc split: option.splits)
  note IH = snoc.IH [OF r]
  show ?case
  proof (cases e)
    case Signal
    with st IH show ?thesis by (auto simp: step_iffs)
  next
    case StartCall
    with st IH show ?thesis by (auto simp: step_iffs)
  next
    case (StartRet r')
    with st IH show ?thesis by (auto simp: step_iffs)
  next
    case StopCall
    with st IH show ?thesis by (auto simp: step_iffs)
  next
    case (StopRet r')
    with st IH show ?thesis by (auto simp: step_iffs)
  next
    case MainStep
    with st IH ctl_inv_run [OF r] show ?thesis by (auto simp: step_iffs ctl_inv_def)
  qed
qed

lemma wg_idle_exited: "wg_idle (exited c tr)"
  by (simp add: wg_idle_def taskDone_def exited_def)

lemma count_list_pos_mem: "0 < count_list xs a \<Longrightarrow> a \<in> set xs"
  by (metis count_list_0_iff less_numeral_extra(3))

lemma run_exited:
  assumes "run es (exited c tr) = Some s"
  shows "es = [] \<and> s = exited c tr"
proof (cases es)
  case Nil
  with assms show ?thesis by simp
next
  case (Cons e es')
  have "pc (exited c tr) = Returned c" by (simp add: exited_def)
  from run_returned [OF this wg_idle_exited, of e es'] assms Cons show ?thesis by simp
qed

lemma stop_reachable:
  assumes "reach_inv s" and "ctx_Done s" and "\<forall>c. pc s \<noteq> Returned c"
  shows "\<exists>es' s'. set es' \<subseteq> {MainStep, StopCall} \<and> run es' s = Some s' \<and> calls ServerStop s' = 1"
proof -
  from assms(1) have ci: "ctl_inv s" and ti: "trace_inv s"
    by (simp_all add: reach_inv_def)
  show ?thesis
  proof (cases "pc s")
    case AtCtxDone
    with ci have n: "stopTask s = NotLaunched" by (simp add: ctl_inv_def)
    with ti have "calls ServerStop s = 0" by (simp add: trace_inv_def called_def)
    with AtCtxDone assms(2) have
      "run [MainStep, StopCall] s
         = Some (s\<lparr>stopTask := Running, pc := AtWait, trace := trace s @ [ServerStop]\<rparr>)"
      and "calls ServerStop (s\<lparr>stopTask := Running, pc := AtWait, trace := trace s @ [ServerStop]\<rparr>) = 1"
      by (simp_all add: step.simps mainStep_def calls_def)
    then show ?thesis
      by (intro exI [of _ "[MainStep, StopCall]"] exI conjI) auto
  next
    case AtWait
    with ci have n: "stopTask s \<noteq> NotLaunched" by (simp add: ctl_inv_def)
    show ?thesis
    proof (cases "stopTask s = Launched")
      case True
      with ti have "calls ServerStop s = 0" by (simp add: trace_inv_def called_def)
      with True have
        "run [StopCall] s = Some (s\<lparr>stopTask := Running, trace := trace s @ [ServerStop]\<rparr>)"
        and "calls ServerStop (s\<lparr>stopTask := Running, trace := trace s @ [ServerStop]\<rparr>) = 1"
        by (simp_all add: step.simps calls_def)
      then show ?thesis
        by (intro exI [of _ "[StopCall]"] exI conjI) auto
    next
      case False
      with n have "called (stopTask s)"
        by (cases "stopTask s") (simp_all add: called_def)
      with ti have "calls ServerStop s = 1" by (simp add: trace_inv_def)
      then show ?thesis
        by (intro exI [of _ "[]"] exI [of _ s]) simp
    qed
  next
    case (Returned c)
    with assms(3) show ?thesis by simp
  qed
qed

lemma obeys_invariant:
  assumes "\<And>s e s'. P s \<Longrightarrow> c s e \<Longrightarrow> step s e = Some s' \<Longrightarrow> P s'"
    and "P s" and "obeys c es s" and "run es s = Some s'"
  shows "P s'"
  using assms(2,3,4)
proof (induction es arbitrary: s)
  case Nil
  then show ?case by simp
next
  case (Cons e es)
  from Cons.prems(3) obtain s1 where s1: "step s e = Some s1" and r: "run es s1 = Some s'"
    by (auto split: option.splits)
  from Cons.prems(2) s1 have c: "c s e" and o: "obeys c es s1"
    by simp_all
  from assms(1) [OF Cons.prems(1) c s1] have "P s1" .
  from Cons.IH [OF this o r] show ?case .
qed

lemma no_errs_step:
  assumes "no_errs s" and "blocksUntilStop s e" and "step s e = Some s'"
  shows "no_errs s'"
  using assms
  by (cases e) (auto simp: step_iffs no_errs_def blocksUntilStop_def task_errs_def)

lemma signalled_step:
  assumes "step s e = Some s'" and "signalled s \<or> e = Signal"
  shows "signalled s'"
  using assms by (cases e) (auto simp: step_iffs)

lemma signalled_run:
  assumes "run es s = Some s'" and "signalled s \<or> Signal \<in> set es"
  shows "signalled s'"
  using assms
proof (induction es arbitrary: s)
  case Nil
  then show ?case by simp
next
  case (Cons e es)
  from Cons.prems(1) obtain s1 where s1: "step s e = Some s1" and r: "run es s1 = Some s'"
    by (auto split: option.splits)
  from Cons.prems(2) have "signalled s \<or> e = Signal \<or> Signal \<in> set es" by auto
  with signalled_step [OF s1] have "signalled s1 \<or> Signal \<in> set es" by blast
  from Cons.IH [OF r this] show ?case .
qed

lemma steps_done_step:
  assumes "ctl_inv s" and "step s e = Some s'"
  shows "steps_done s' = steps_done s + (if e = Signal then 0 else 1)"
  using assms
  by (cases e) (auto simp: step_iffs steps_done_def task_steps_def ctl_inv_def)

lemma steps_done_run:
  assumes "ctl_inv s" and "run es s = Some s'"
  shows "steps_done s' = steps_done s + length (filter (\<lambda>e. e \<noteq> Signal) es)"
  using assms
proof (induction es arbitrary: s)
  case Nil
  then show ?case by simp
next
  case (Cons e es)
  from Cons.prems(2) obtain s1 where s1: "step s e = Some s1" and r: "run es s1 = Some s'"
    by (auto split: option.splits)
  from ctl_inv_step [OF Cons.prems(1) s1] have "ctl_inv s1" .
  from Cons.IH [OF this r] steps_done_step [OF Cons.prems(1) s1] show ?case by simp
qed

lemma steps_done_le: "steps_done s \<le> 6"
  by (cases "pc s"; cases "startTask s"; cases "stopTask s")
    (simp_all add: steps_done_def task_steps_def)

lemma progress_blocksUntilStop:
  assumes "ctl_inv s" and "eg_inv s" and "trace_inv s" and "no_errs s" and "signalled s"
  shows "pc s = Returned 0 \<or> (\<exists>e s'. e \<noteq> Signal \<and> blocksUntilStop s e \<and> step s e = Some s')"
proof (cases "pc s")
  case AtCtxDone
  with assms(5) have "step s MainStep = Some (s\<lparr>stopTask := Launched, pc := AtWait\<rparr>)"
    by (simp add: step_MainStep_iff ctx_Done_def)
  moreover have "blocksUntilStop s MainStep" by (simp add: blocksUntilStop_def)
  ultimately show ?thesis by blast
next
  case AtWait
  with assms(1) have n: "startTask s \<noteq> NotLaunched" "stopTask s \<noteq> NotLaunched"
    by (simp_all add: ctl_inv_def)
  consider (a) "startTask s = Launched" | (b) "stopTask s = Launched"
    | (c) "stopTask s = Running"
    | (d) "startTask s = Running" "\<exists>r. stopTask s = Finished r"
    | (e) "\<exists>r. startTask s = Finished r" "\<exists>r. stopTask s = Finished r"
    using n by (cases "startTask s"; cases "stopTask s") auto
  then show ?thesis
  proof cases
    case a
    then have "step s StartCall \<noteq> None \<and> blocksUntilStop s StartCall"
      by (simp add: step.simps blocksUntilStop_def)
    then show ?thesis by blast
  next
    case b
    then have "step s StopCall \<noteq> None \<and> blocksUntilStop s StopCall"
      by (simp add: step.simps blocksUntilStop_def)
    then show ?thesis by blast
  next
    case c
    then have "step s (StopRet None) \<noteq> None \<and> blocksUntilStop s (StopRet None)"
      by (simp add: step.simps blocksUntilStop_def)
    then show ?thesis by blast
  next
    case d
    with assms(3) have "0 < count_list (trace s) ServerStop"
      by (auto simp: trace_inv_def called_def calls_def)
    then have "ServerStop \<in> set (trace s)" by (rule count_list_pos_mem)
    with d have "step s (StartRet None) \<noteq> None \<and> blocksUntilStop s (StartRet None)"
      by (simp add: step.simps blocksUntilStop_def)
    then show ?thesis by blast
  next
    case e
    with AtWait have "step s MainStep \<noteq> None \<and> blocksUntilStop s MainStep"
      by (auto simp: step.simps mainStep_def wg_idle_def taskDone_def eg_Wait_def blocksUntilStop_def)
    then show ?thesis by blast
  qed
next
  case (Returned c)
  from assms(2,4) have "egErr s = None"
    by (cases "egErr s") (auto simp: eg_inv_def no_errs_def)
  with Returned assms(1) show ?thesis
    by (simp add: ctl_inv_def exitStatus_def)
qed

lemma completes_blocksUntilStop:
  assumes "reach_inv s" and "no_errs s" and "signalled s"
  shows "\<exists>es' s'. Signal \<notin> set es' \<and> obeys blocksUntilStop es' s \<and> run es' s = Some s'
           \<and> pc s' = Returned 0"
  using assms
proof (induction "6 - steps_done s" arbitrary: s rule: less_induct)
  case less
  from less.prems(1) have ci: "ctl_inv s" and ei: "eg_inv s" and ti: "trace_inv s"
    by (simp_all add: reach_inv_def)
  from progress_blocksUntilStop [OF ci ei ti less.prems(2,3)]
  show ?case
  proof
    assume "pc s = Returned 0"
    then have "Signal \<notin> set [] \<and> obeys blocksUntilStop [] s \<and> run [] s = Some s
        \<and> pc s = Returned 0"
      by simp
    then show ?thesis by (intro exI)
  next
    assume "\<exists>e s'. e \<noteq> Signal \<and> blocksUntilStop s e \<and> step s e = Some s'"
    then obtain e s1 where e: "e \<noteq> Signal" and c: "blocksUntilStop s e"
      and st: "step s e = Some s1"
      by blast
    from steps_done_step [OF ci st] e have sd: "steps_done s1 = steps_done s + 1" by simp
    with steps_done_le [of s1] have m: "6 - steps_done s1 < 6 - steps_done s" by simp
    from less.hyps [OF m reach_inv_step [OF less.prems(1) st] no_errs_step [OF less.prems(2) c st]
        signalled_step [OF st]] less.prems(3)
    obtain es'' s' where n: "Signal \<notin> set es''" and o: "obeys blocksUntilStop es'' s1"
      and r: "run es'' s1 = Some s'" and p: "pc s' = Returned 0"
      by blast
    from e n c st o r p
    have "Signal \<notin> set (e # es'') \<and> obeys blocksUntilStop (e # es'') s
        \<and> run (e # es'') s = Some s' \<and> pc s' = Returned 0"
      by simp
    then show ?thesis by (intro exI)
  qed
qed




text \<open>The definitions a concrete run is evaluated with.\<close>

lemmas run_defs = start_def start_init_def world_ok_def createLogger_def launched_def
  exited_def step.simps mainStep_def ctx_Done_def wg_idle_def taskDone_def eg_Wait_def
  eg_taskDone_def logged_def exitStatus_def componentPhase_def

text \<open>Runs in \<open>world_ok\<close> that several of the examples below use.\<close>

lemma componentPhase_world_ok: "componentPhase world_ok"
  by (simp add: componentPhase_def world_ok_def createLogger_def)

lemma run_graceful:
  "start world_ok [StartCall, Signal, MainStep, StopCall, StopRet None, StartRet None, MainStep]
     = Some shut_down"
  by (simp add: run_defs shut_down_def)

lemma run_both_failed:
  "start world_ok [StartCall, StartRet (Some ''Ea''), MainStep, StopCall, StopRet (Some ''Eb'')]
     = Some both_failed"
  by (simp add: run_defs both_failed_def)

section \<open>The exit status\<close>

text \<open>
  Claim C9. Whatever the collaborators do and however the run is scheduled, when
  \<^verbatim>\<open>start\<close> has returned, the value it returned (the exit status of the process) is 0 or
  1: the status says that some error occurred and nothing about which.
\<close>

theorem C9_exit_status_zero_or_one:
  assumes "start w es = Some s" and "pc s = Returned c"
  shows "c = 0 \<or> c = 1"
proof -
  from assms(1) have r: "run es (start_init w) = Some s"
    by (simp add: start_def)
  have "\<forall>c. pc s = Returned c \<longrightarrow> c = 0 \<or> c = 1"
    by (rule run_invariant
        [where P = "\<lambda>s. \<forall>c. pc s = Returned c \<longrightarrow> c = 0 \<or> c = 1",
          OF exit_code_step exit_code_init r])
  with assms(2) show ?thesis by simp
qed

lemma run_boom:
  "start world_ok [StartCall, StartRet (Some ''boom''), MainStep, StopCall, StopRet None, MainStep]
     = Some \<lparr>pc = Returned 1, startTask = Finished (Some ''boom''), stopTask = Finished None,
         signalled = False, egErr = Some ''boom'', egOnce = True, egCancelled = True,
         trace = [EnvLoad, NewDatabase, NewQueue, ServerNew, ServerStart,
                  LogInfo ''Error starting server'' ''boom'', ServerStop, NotifyStop, LogSync]\<rparr>"
  by (simp add: run_defs)

theorem C9_exit_status_zero_or_one_witness:
  "start world_ok [StartCall, StartRet (Some ''boom''), MainStep, StopCall, StopRet None, MainStep]
     = Some \<lparr>pc = Returned 1, startTask = Finished (Some ''boom''), stopTask = Finished None,
         signalled = False, egErr = Some ''boom'', egOnce = True, egCancelled = True,
         trace = [EnvLoad, NewDatabase, NewQueue, ServerNew, ServerStart,
                  LogInfo ''Error starting server'' ''boom'', ServerStop, NotifyStop, LogSync]\<rparr>
   \<and> ((1::int) = 0 \<or> (1::int) = 1)"
  using run_boom C9_exit_status_zero_or_one [OF run_boom, of 1]
  by simp

lemma run_boom_returned:
  "start world_ok [StartCall, StartRet (Some ''boom''), MainStep, StopCall, StopRet None, MainStep]
     = Some boom_returned"
  using run_boom by (simp add: boom_returned_def)

lemma status_produced:
  assumes "ctl_inv s" and "startTask s = Finished a" and "stopTask s = Finished b"
  shows "pc s = Returned (exitStatus (egErr s))
       \<or> (\<exists>s'. step s MainStep = Some s' \<and> pc s' = Returned (exitStatus (egErr s)))"
proof (cases "pc s")
  case AtCtxDone
  with assms(1,3) show ?thesis by (simp add: ctl_inv_def)
next
  case AtWait
  with assms(2,3) show ?thesis
    by (simp add: step.simps mainStep_def wg_idle_def taskDone_def eg_Wait_def)
next
  case (Returned c)
  with assms(1) show ?thesis by (simp add: ctl_inv_def)
qed

text \<open>
  Claim C3. In every run that reaches the component phase, the exit status is produced
  and says whether an error occurred. When \<^verbatim>\<open>start\<close> has returned, the status is 0
  exactly when neither \<^verbatim>\<open>s.Start()\<close> nor \<^verbatim>\<open>s.Stop()\<close> returned an error, and it is non-zero
  exactly when at least one of them returned an error. And when both calls have returned,
  \<^verbatim>\<open>start\<close> has returned or returns with the next step of the main goroutine, with a
  status that is 0 exactly when neither call returned an error.
\<close>

theorem C3_exit_status_iff_no_error:
  assumes "componentPhase w" and "start w es = Some s"
  shows "(\<forall>c. pc s = Returned c \<longrightarrow>
            (c = 0) = (\<forall>err. StartRet (Some err) \<notin> set es \<and> StopRet (Some err) \<notin> set es)
          \<and> (c \<noteq> 0) = (\<exists>err. StartRet (Some err) \<in> set es \<or> StopRet (Some err) \<in> set es))
       \<and> ((\<exists>a. StartRet a \<in> set es) \<and> (\<exists>b. StopRet b \<in> set es) \<longrightarrow>
            (\<exists>c. (pc s = Returned c \<or> (\<exists>s'. step s MainStep = Some s' \<and> pc s' = Returned c))
               \<and> (c = 0)
                   = (\<forall>err. StartRet (Some err) \<notin> set es \<and> StopRet (Some err) \<notin> set es)))"
proof (rule conjI)
  from reach_inv_start [OF assms(1,2)] have ci: "ctl_inv s" and ei: "eg_inv s"
    by (simp_all add: reach_inv_def)
  from assms(2) have "run es (launched [EnvLoad, NewDatabase, NewQueue, ServerNew]) = Some s"
    by (simp add: start_def start_init_phase [OF assms(1)])
  from results_in_events [OF this]
  have ev: "\<And>r. (startTask s = Finished r) = (StartRet r \<in> set es)"
    "\<And>r. (stopTask s = Finished r) = (StopRet r \<in> set es)"
    by simp_all
  have "(egErr s = None)
      = (\<forall>err. startTask s \<noteq> Finished (Some err) \<and> stopTask s \<noteq> Finished (Some err))"
    using ei by (auto simp: eg_inv_def task_errs_def split: task.splits option.splits)
  then have ne: "(egErr s = None)
      = (\<forall>err. StartRet (Some err) \<notin> set es \<and> StopRet (Some err) \<notin> set es)"
    by (simp add: ev)
  then have z: "(exitStatus (egErr s) = 0)
      = (\<forall>err. StartRet (Some err) \<notin> set es \<and> StopRet (Some err) \<notin> set es)"
    by (simp add: exitStatus_def)
  show "\<forall>c. pc s = Returned c \<longrightarrow>
            (c = 0) = (\<forall>err. StartRet (Some err) \<notin> set es \<and> StopRet (Some err) \<notin> set es)
          \<and> (c \<noteq> 0) = (\<exists>err. StartRet (Some err) \<in> set es \<or> StopRet (Some err) \<in> set es)"
  proof (intro allI impI)
    fix c
    assume "pc s = Returned c"
    with ci have c: "c = exitStatus (egErr s)"
      by (simp add: ctl_inv_def)
    from z show "(c = 0) = (\<forall>err. StartRet (Some err) \<notin> set es \<and> StopRet (Some err) \<notin> set es)
          \<and> (c \<noteq> 0) = (\<exists>err. StartRet (Some err) \<in> set es \<or> StopRet (Some err) \<in> set es)"
      unfolding c by auto
  qed
  show "(\<exists>a. StartRet a \<in> set es) \<and> (\<exists>b. StopRet b \<in> set es) \<longrightarrow>
            (\<exists>c. (pc s = Returned c \<or> (\<exists>s'. step s MainStep = Some s' \<and> pc s' = Returned c))
               \<and> (c = 0)
                   = (\<forall>err. StartRet (Some err) \<notin> set es \<and> StopRet (Some err) \<notin> set es))"
  proof (rule impI)
    assume "(\<exists>a. StartRet a \<in> set es) \<and> (\<exists>b. StopRet b \<in> set es)"
    then obtain a b where "startTask s = Finished a" and "stopTask s = Finished b"
      by (auto simp: ev)
    from status_produced [OF ci this] z
    have "(pc s = Returned (exitStatus (egErr s))
           \<or> (\<exists>s'. step s MainStep = Some s' \<and> pc s' = Returned (exitStatus (egErr s))))
        \<and> (exitStatus (egErr s) = 0)
            = (\<forall>err. StartRet (Some err) \<notin> set es \<and> StopRet (Some err) \<notin> set es)"
      by (rule conjI)
    then show "\<exists>c. (pc s = Returned c \<or> (\<exists>s'. step s MainStep = Some s' \<and> pc s' = Returned c))
               \<and> (c = 0)
                   = (\<forall>err. StartRet (Some err) \<notin> set es \<and> StopRet (Some err) \<notin> set es)"
      by (rule exI)
  qed
qed

theorem C3_exit_status_iff_no_error_witness:
  "componentPhase world_ok
   \<and> start world_ok
        [StartCall, StartRet (Some ''boom''), MainStep, StopCall, StopRet None, MainStep]
       = Some boom_returned
   \<and> pc boom_returned = Returned 1
   \<and> (\<exists>err. StartRet (Some err)
               \<in> set [StartCall, StartRet (Some ''boom''), MainStep, StopCall, StopRet None, MainStep]
           \<or> StopRet (Some err)
               \<in> set [StartCall, StartRet (Some ''boom''), MainStep, StopCall, StopRet None, MainStep])
   \<and> start world_ok
        [StartCall, Signal, MainStep, StopCall, StopRet None, StartRet None, MainStep]
       = Some shut_down
   \<and> pc shut_down = Returned 0
   \<and> (\<forall>err. StartRet (Some err)
               \<notin> set [StartCall, Signal, MainStep, StopCall, StopRet None, StartRet None, MainStep]
           \<and> StopRet (Some err)
               \<notin> set [StartCall, Signal, MainStep, StopCall, StopRet None, StartRet None, MainStep])
   \<and> start world_ok
        [StartCall, StartRet (Some ''Ea''), MainStep, StopCall, StopRet (Some ''Eb'')]
       = Some both_failed
   \<and> (\<exists>c. (pc both_failed = Returned c
             \<or> (\<exists>s'. step both_failed MainStep = Some s' \<and> pc s' = Returned c))
          \<and> c \<noteq> 0)"
proof -
  have p: "pc boom_returned = Returned 1" "pc shut_down = Returned 0"
    by (simp_all add: boom_returned_def shut_down_def)
  from C3_exit_status_iff_no_error [OF componentPhase_world_ok run_boom_returned] p(1)
  have a: "\<exists>err. StartRet (Some err)
               \<in> set [StartCall, StartRet (Some ''boom''), MainStep, StopCall, StopRet None, MainStep]
           \<or> StopRet (Some err)
               \<in> set [StartCall, StartRet (Some ''boom''), MainStep, StopCall, StopRet None, MainStep]"
    by simp
  from C3_exit_status_iff_no_error [OF componentPhase_world_ok run_graceful] p(2)
  have b: "\<forall>err. StartRet (Some err)
               \<notin> set [StartCall, Signal, MainStep, StopCall, StopRet None, StartRet None, MainStep]
           \<and> StopRet (Some err)
               \<notin> set [StartCall, Signal, MainStep, StopCall, StopRet None, StartRet None, MainStep]"
    by simp
  from C3_exit_status_iff_no_error [OF componentPhase_world_ok run_both_failed]
  have c: "\<exists>c. (pc both_failed = Returned c
             \<or> (\<exists>s'. step both_failed MainStep = Some s' \<and> pc s' = Returned c))
          \<and> c \<noteq> 0"
    by auto
  from componentPhase_world_ok run_boom_returned run_graceful run_both_failed p a b c
  show ?thesis by simp
qed

section \<open>Failure before the component phase\<close>

text \<open>
  Claim C5. If the logger cannot be created or the AWS configuration cannot be loaded,
  \<^verbatim>\<open>start\<close> returns 1 at once: the database, the queue and the server are never
  constructed, neither \<^verbatim>\<open>Start\<close> nor \<^verbatim>\<open>Stop\<close> is called, and no further event (a signal, a
  step of a task) belongs to the run.
\<close>

theorem C5_configuration_failure:
  assumes "isl (createLogger w ''development'') \<or> config_LoadDefaultConfig w \<noteq> None"
  shows "(\<exists>s. start w [] = Some s \<and> pc s = Returned 1
            \<and> set (trace s) \<inter> {NewDatabase, NewQueue, ServerNew, ServerStart, ServerStop} = {})
       \<and> (\<forall>e es. start w (e # es) = None)"
proof -
  from assms have "\<not> componentPhase w"
    by (auto simp: componentPhase_def)
  from start_init_failed [OF this] obtain tr where
    i: "start_init w = exited 1 tr" and
    tr: "set tr \<inter> {NewDatabase, NewQueue, ServerNew, ServerStart, ServerStop} = {}"
    by blast
  have "start w [] = Some (exited 1 tr)"
    by (simp add: start_def i)
  moreover have "pc (exited 1 tr) = Returned 1" and "trace (exited 1 tr) = tr"
    by (simp_all add: exited_def)
  moreover have "start w (e # es) = None" for e es
    unfolding start_def i
    by (rule run_returned [OF _ wg_idle_exited]) (simp add: exited_def)
  ultimately show ?thesis using tr by simp
qed

theorem C5_configuration_failure_witness:
  "(isl (createLogger world_noconfig ''development'')
      \<or> config_LoadDefaultConfig world_noconfig \<noteq> None)
   \<and> (\<exists>s. start world_noconfig [] = Some s \<and> pc s = Returned 1
            \<and> set (trace s) \<inter> {NewDatabase, NewQueue, ServerNew, ServerStart, ServerStop} = {})
   \<and> (\<forall>e es. start world_noconfig (e # es) = None)"
proof -
  have h: "isl (createLogger world_noconfig ''development'')
      \<or> config_LoadDefaultConfig world_noconfig \<noteq> None"
    by (simp add: world_noconfig_def world_ok_def)
  from h C5_configuration_failure [OF h] show ?thesis by simp
qed

section \<open>Stop follows start\<close>

text \<open>
  Claim C4. \<^verbatim>\<open>Start\<close> and \<^verbatim>\<open>Stop\<close> are each called at most once in a run. When \<^verbatim>\<open>start\<close>
  has returned and \<^verbatim>\<open>Start\<close> was called, \<^verbatim>\<open>Stop\<close> has been called exactly once, whatever
  \<^verbatim>\<open>Start\<close> returned and whenever it did. \<^verbatim>\<open>Stop\<close> has been called, or can be called
  next, only in a state in which the context is done (draining has been entered). And
  once the context is done, the steps of the main goroutine and of the stop task lead to
  the one call of \<^verbatim>\<open>Stop\<close> without any step of the start task, so also while \<^verbatim>\<open>Start\<close>
  is still in flight.
\<close>

theorem C4_stop_follows_start:
  assumes "start w es = Some s"
  shows "calls ServerStart s \<le> 1 \<and> calls ServerStop s \<le> 1
       \<and> (\<forall>c. pc s = Returned c \<and> 0 < calls ServerStart s \<longrightarrow> calls ServerStop s = 1)
       \<and> (0 < calls ServerStop s \<or> step s StopCall \<noteq> None \<longrightarrow> ctx_Done s)
       \<and> (ctx_Done s \<and> (\<forall>c. pc s \<noteq> Returned c) \<longrightarrow>
            (\<exists>es' s'. set es' \<subseteq> {MainStep, StopCall} \<and> run es' s = Some s'
                      \<and> calls ServerStop s' = 1))"
proof (cases "componentPhase w")
  case True
  from reach_inv_start [OF True assms] have ri: "reach_inv s" .
  then have ci: "ctl_inv s" and ti: "trace_inv s"
    by (simp_all add: reach_inv_def)
  from ti have a: "calls ServerStart s \<le> 1 \<and> calls ServerStop s \<le> 1"
    by (simp add: trace_inv_def)
  have b: "\<forall>c. pc s = Returned c \<and> 0 < calls ServerStart s \<longrightarrow> calls ServerStop s = 1"
    using ci ti
    by (cases "stopTask s") (auto simp: ctl_inv_def trace_inv_def wg_idle_def taskDone_def called_def)
  have c: "0 < calls ServerStop s \<or> step s StopCall \<noteq> None \<longrightarrow> ctx_Done s"
    using ci ti
    by (cases "pc s") (auto simp: ctl_inv_def trace_inv_def called_def step.simps split: if_splits)
  from stop_reachable [OF ri] a b c show ?thesis by blast
next
  case False
  from start_init_failed [OF False] obtain tr where
    i: "start_init w = exited 1 tr" and
    tr: "set tr \<inter> {NewDatabase, NewQueue, ServerNew, ServerStart, ServerStop} = {}"
    by blast
  from assms have "run es (exited 1 tr) = Some s" by (simp add: start_def i)
  from run_exited [OF this] have s: "s = exited 1 tr" by simp
  from tr have "count_list tr ServerStart = 0" and "count_list tr ServerStop = 0"
    by (simp_all add: count_list_0_iff)
  then show ?thesis
    by (simp add: s calls_def exited_def ctx_Done_def step.simps)
qed

lemma run_signalled: "start world_ok [StartCall, Signal] = Some start_signalled"
  by (simp add: run_defs start_signalled_def)

theorem C4_stop_follows_start_witness:
  "start world_ok [StartCall, Signal, MainStep, StopCall, StopRet None, StartRet None, MainStep]
     = Some shut_down
   \<and> pc shut_down = Returned 0
   \<and> calls ServerStart shut_down = 1
   \<and> calls ServerStop shut_down = 1
   \<and> ctx_Done shut_down
   \<and> start world_ok [StartCall, Signal] = Some start_signalled
   \<and> ctx_Done start_signalled
   \<and> (\<exists>es' s'. set es' \<subseteq> {MainStep, StopCall} \<and> run es' start_signalled = Some s'
         \<and> calls ServerStop s' = 1)"
proof -
  have "pc shut_down = Returned 0 \<and> calls ServerStart shut_down = 1 \<and> ctx_Done shut_down"
    by (simp add: shut_down_def calls_def ctx_Done_def)
  moreover have "ctx_Done start_signalled \<and> (\<forall>c. pc start_signalled \<noteq> Returned c)"
    by (simp add: start_signalled_def ctx_Done_def)
  ultimately show ?thesis
    using run_graceful run_signalled C4_stop_follows_start [OF run_graceful]
      C4_stop_follows_start [OF run_signalled]
    by simp
qed

section \<open>Entering draining when \<^verbatim>\<open>Start\<close> returns\<close>

lemma run_start_returned_nil:
  "start world_ok [StartCall, StartRet None] = Some start_returned_nil"
  by (simp add: run_defs start_returned_nil_def)

lemma run_start_failed:
  "start world_ok [StartCall, StartRet (Some ''boom'')] = Some start_failed"
  by (simp add: run_defs start_failed_def)

text \<open>
  Claim C1, as stated, fails when \<^verbatim>\<open>Start\<close> returns \<^verbatim>\<open>nil\<close>: the errgroup cancels its
  context only on a non-nil error. In the state reached when \<^verbatim>\<open>Start\<close> has been called and
  has returned \<^verbatim>\<open>nil\<close>, with no signal delivered, the context is not done, \<^verbatim>\<open>Stop\<close> has not
  been called, and no event but the delivery of a signal can happen.
\<close>

theorem C1_start_returns_nil_counterexample:
  "start world_ok [StartCall, StartRet None] = Some start_returned_nil
   \<and> startTask start_returned_nil = Finished None
   \<and> \<not> signalled start_returned_nil
   \<and> \<not> ctx_Done start_returned_nil
   \<and> calls ServerStop start_returned_nil = 0
   \<and> (\<forall>e. e = Signal \<or> step start_returned_nil e = None)"
proof -
  have "e = Signal \<or> step start_returned_nil e = None" for e
    by (cases e) (simp_all add: start_returned_nil_def step.simps mainStep_def ctx_Done_def)
  with run_start_returned_nil show ?thesis
    by (simp add: start_returned_nil_def calls_def ctx_Done_def)
qed

text \<open>
  Claim C1, amended. If \<^verbatim>\<open>Start\<close> returns an error, the context is done, whether or not
  a signal has been delivered; the steps of the main goroutine and of the stop task then
  lead to the call of \<^verbatim>\<open>Stop\<close>, and until \<^verbatim>\<open>Stop\<close> is called the process can do nothing
  else (apart from receiving a signal). If \<^verbatim>\<open>Start\<close> returns \<^verbatim>\<open>nil\<close> and no signal has been
  delivered, the context is not done, \<^verbatim>\<open>Stop\<close> has not been called and the process waits
  for a signal.
\<close>

theorem C1_implicit_cancellation_on_error:
  assumes "componentPhase w" and "start w es = Some s"
  shows "(\<forall>err. startTask s = Finished (Some err) \<longrightarrow>
            ctx_Done s
            \<and> (\<exists>es' s'. set es' \<subseteq> {MainStep, StopCall} \<and> run es' s = Some s'
                      \<and> calls ServerStop s' = 1)
            \<and> (\<forall>e s'. calls ServerStop s = 0 \<and> step s e = Some s'
                      \<longrightarrow> e \<in> {Signal, MainStep, StopCall}))
       \<and> (startTask s = Finished None \<and> \<not> signalled s \<longrightarrow>
            \<not> ctx_Done s \<and> calls ServerStop s = 0 \<and> (\<forall>e. e = Signal \<or> step s e = None))"
proof (rule conjI)
  from reach_inv_start [OF assms] have ri: "reach_inv s" .
  then have ci: "ctl_inv s" and ei: "eg_inv s" and ti: "trace_inv s"
    by (simp_all add: reach_inv_def)
  show "\<forall>err. startTask s = Finished (Some err) \<longrightarrow>
            ctx_Done s
            \<and> (\<exists>es' s'. set es' \<subseteq> {MainStep, StopCall} \<and> run es' s = Some s'
                      \<and> calls ServerStop s' = 1)
            \<and> (\<forall>e s'. calls ServerStop s = 0 \<and> step s e = Some s'
                      \<longrightarrow> e \<in> {Signal, MainStep, StopCall})"
  proof (intro allI impI)
    fix err
    assume f: "startTask s = Finished (Some err)"
    from f ei have d: "ctx_Done s"
      by (auto simp: eg_inv_def task_errs_def ctx_Done_def)
    have "e \<in> {Signal, MainStep, StopCall}"
      if "calls ServerStop s = 0 \<and> step s e = Some s'" for e s'
      using that f ti
      by (cases e) (auto simp: step_iffs trace_inv_def called_def split: if_splits)
    then have u: "\<forall>e s'. calls ServerStop s = 0 \<and> step s e = Some s'
                      \<longrightarrow> e \<in> {Signal, MainStep, StopCall}"
      by (intro allI impI)
    have r: "\<exists>es' s'. set es' \<subseteq> {MainStep, StopCall} \<and> run es' s = Some s'
                      \<and> calls ServerStop s' = 1"
    proof (cases "\<exists>c. pc s = Returned c")
      case True
      with ci f ti have "calls ServerStop s = 1"
        by (cases "stopTask s")
          (auto simp: ctl_inv_def trace_inv_def called_def wg_idle_def taskDone_def)
      then have "set [] \<subseteq> {MainStep, StopCall} \<and> run [] s = Some s \<and> calls ServerStop s = 1"
        by simp
      then show ?thesis by (intro exI)
    next
      case False
      then have "\<forall>c. pc s \<noteq> Returned c" by simp
      from stop_reachable [OF ri d this] show ?thesis .
    qed
    show "ctx_Done s
            \<and> (\<exists>es' s'. set es' \<subseteq> {MainStep, StopCall} \<and> run es' s = Some s'
                      \<and> calls ServerStop s' = 1)
            \<and> (\<forall>e s'. calls ServerStop s = 0 \<and> step s e = Some s'
                      \<longrightarrow> e \<in> {Signal, MainStep, StopCall})"
      by (rule conjI [OF d conjI [OF r u]])
  qed
next
  from reach_inv_start [OF assms] have ti: "trace_inv s" and qi: "quiet_inv s"
    by (simp_all add: reach_inv_def)
  show "startTask s = Finished None \<and> \<not> signalled s \<longrightarrow>
            \<not> ctx_Done s \<and> calls ServerStop s = 0 \<and> (\<forall>e. e = Signal \<or> step s e = None)"
  proof (rule impI)
    assume "startTask s = Finished None \<and> \<not> signalled s"
    then have f: "startTask s = Finished None" and n: "\<not> signalled s"
      by simp_all
    from qi f n have q: "pc s = AtCtxDone" "stopTask s = NotLaunched" "\<not> egCancelled s"
      by (simp_all add: quiet_inv_def task_errs_def)
    with n have d: "\<not> ctx_Done s" by (simp add: ctx_Done_def)
    from q ti have z: "calls ServerStop s = 0" by (simp add: trace_inv_def called_def)
    have "e = Signal \<or> step s e = None" for e
      using q f d by (cases e) (simp_all add: step.simps mainStep_def)
    with d z show "\<not> ctx_Done s \<and> calls ServerStop s = 0 \<and> (\<forall>e. e = Signal \<or> step s e = None)"
      by simp
  qed
qed

theorem C1_implicit_cancellation_on_error_witness:
  "componentPhase world_ok
   \<and> start world_ok [StartCall, StartRet (Some ''boom'')] = Some start_failed
   \<and> startTask start_failed = Finished (Some ''boom'')
   \<and> ctx_Done start_failed
   \<and> (\<exists>es' s'. set es' \<subseteq> {MainStep, StopCall} \<and> run es' start_failed = Some s'
         \<and> calls ServerStop s' = 1)
   \<and> start world_ok [StartCall, StartRet None] = Some start_returned_nil
   \<and> startTask start_returned_nil = Finished None
   \<and> \<not> signalled start_returned_nil
   \<and> \<not> ctx_Done start_returned_nil"
proof -
  have f: "startTask start_failed = Finished (Some ''boom'')"
    by (simp add: start_failed_def)
  have n: "startTask start_returned_nil = Finished None \<and> \<not> signalled start_returned_nil"
    by (simp add: start_returned_nil_def)
  from f n componentPhase_world_ok run_start_failed run_start_returned_nil
    C1_implicit_cancellation_on_error [OF componentPhase_world_ok run_start_failed]
    C1_implicit_cancellation_on_error [OF componentPhase_world_ok run_start_returned_nil]
  show ?thesis by simp
qed

section \<open>Errors of both phases\<close>




section \<open>The success path\<close>

text \<open>
  Claim C7. Take a component that obeys \<open>blocksUntilStop\<close> (\<^verbatim>\<open>Start\<close> returns only after
  \<^verbatim>\<open>Stop\<close> has been called, and both return \<^verbatim>\<open>nil\<close>) and a run in which a signal is
  delivered after \<^verbatim>\<open>Start\<close> has been called. Then \<^verbatim>\<open>start\<close> returns 0: the run has at most
  six steps of the three goroutines; the state it has reached either is the return with
  status 0 or allows a further step within the contract, so a run cannot end anywhere
  else; and from that state the run can be completed, without another signal, to the
  return with status 0.
\<close>

theorem C7_success_path:
  assumes "componentPhase w" and "start w es = Some s"
    and "obeys blocksUntilStop es (start_init w)"
    and "es = pre @ Signal # post" and "StartCall \<in> set pre"
  shows "length (filter (\<lambda>e. e \<noteq> Signal) es) \<le> 6
       \<and> (pc s = Returned 0
            \<or> (\<exists>e s'. e \<noteq> Signal \<and> blocksUntilStop s e \<and> step s e = Some s'))
       \<and> (\<exists>es' s'. Signal \<notin> set es' \<and> obeys blocksUntilStop es' s \<and> run es' s = Some s'
             \<and> pc s' = Returned 0)"
proof -
  from reach_inv_start [OF assms(1,2)] have ri: "reach_inv s" .
  then have ci: "ctl_inv s" and ei: "eg_inv s" and ti: "trace_inv s"
    by (simp_all add: reach_inv_def)
  let ?s0 = "launched [EnvLoad, NewDatabase, NewQueue, ServerNew]"
  from assms(1) have i: "start_init w = ?s0" by (rule start_init_phase)
  from assms(2) have r: "run es ?s0 = Some s" by (simp add: start_def i)
  from assms(3) have o: "obeys blocksUntilStop es ?s0" by (simp add: i)
  have "no_errs ?s0" by (simp add: no_errs_def launched_def task_errs_def)
  from obeys_invariant [where P = no_errs, OF no_errs_step this o r] have ne: "no_errs s" .
  from assms(4) have "Signal \<in> set es" by simp
  with signalled_run [OF r] have sg: "signalled s" by simp
  have "steps_done ?s0 = 0" by (simp add: steps_done_def task_steps_def launched_def)
  with steps_done_run [OF ctl_inv_launched r] steps_done_le [of s]
  have b: "length (filter (\<lambda>e. e \<noteq> Signal) es) \<le> 6" by simp
  show ?thesis
    by (rule conjI [OF b conjI [OF progress_blocksUntilStop [OF ci ei ti ne sg]
            completes_blocksUntilStop [OF ri ne sg]]])
qed

lemma obeys_graceful:
  "obeys blocksUntilStop
     [StartCall, Signal, MainStep, StopCall, StopRet None, StartRet None, MainStep]
     (start_init world_ok)"
  by (simp add: run_defs blocksUntilStop_def)

theorem C7_success_path_witness:
  "componentPhase world_ok
   \<and> start world_ok [StartCall, Signal, MainStep, StopCall, StopRet None, StartRet None, MainStep]
       = Some shut_down
   \<and> obeys blocksUntilStop
       [StartCall, Signal, MainStep, StopCall, StopRet None, StartRet None, MainStep]
       (start_init world_ok)
   \<and> StartCall \<in> set [StartCall]
   \<and> pc shut_down = Returned 0
   \<and> length (filter (\<lambda>e. e \<noteq> Signal)
        [StartCall, Signal, MainStep, StopCall, StopRet None, StartRet None, MainStep]) \<le> 6
   \<and> (\<exists>es' s'. Signal \<notin> set es' \<and> obeys blocksUntilStop es' shut_down
         \<and> run es' shut_down = Some s' \<and> pc s' = Returned 0)"
proof -
  have p: "[StartCall, Signal, MainStep, StopCall, StopRet None, StartRet None, MainStep]
      = [StartCall] @ Signal # [MainStep, StopCall, StopRet None, StartRet None, MainStep]"
    by simp
  have q: "StartCall \<in> set [StartCall]" by simp
  have "pc shut_down = Returned 0" by (simp add: shut_down_def)
  with componentPhase_world_ok run_graceful obeys_graceful q
    C7_success_path [OF componentPhase_world_ok run_graceful obeys_graceful p q]
  show ?thesis by simp
qed

end
